theory Spec2Isabelle
  imports Complex_Main
begin

section \<open>Data model\<close>

text \<open>
  The notebook works on tensors whose rows are \<open>[x1, y1, x2, y2, conf, cls]\<close>.
  Coordinates and confidences are floats in the source; they are modelled here as
  real numbers, so every statement below is about exact arithmetic.
  The class id is a float holding an integer in the source; it is an \<open>int\<close> here.
\<close>

record box =
  x1 :: real
  y1 :: real
  x2 :: real
  y2 :: real

record detection =
  xyxy :: box
  conf :: real
  cls :: int

text \<open>
  The only failure the modelled code can raise by itself: \<open>gate_weights[i]\<close> with
  \<open>i\<close> past the end of the gate-weight vector.
\<close>

datatype error = IndexError

text \<open>
  What one expert returns for an image: \<open>None\<close> when \<open>result.boxes\<close> (or its
  \<open>conf\<close>) is \<open>None\<close>, otherwise the raw detections in the expert's order.
\<close>

type_synonym expert_result = "detection list option"

section \<open>Non-maximum suppression\<close>

text \<open>
  \<open>torchvision.ops.nms\<close>, which \<open>run_moe\<close> imports and calls as
  \<open>nms(boxes, scores, iou_threshold)\<close>, is not part of the repository's files. The
  definitions of this section follow step 5 of the spec's section 4.3: sort by confidence
  descending, ties in insertion order; repeatedly keep the highest remaining detection
  and discard every remaining one whose IoU with it exceeds the threshold.
\<close>

text \<open>
  Modelled from the spec: the area of an axis-aligned box, for the IoU of
  \<open>torchvision.ops.nms\<close> (missing from the repository's files).
\<close>

definition area :: "box \<Rightarrow> real" where
  "area b = (x2 b - x1 b) * (y2 b - y1 b)"

text \<open>
  Modelled from the spec: the area of the axis-aligned intersection of two boxes, for the
  IoU of \<open>torchvision.ops.nms\<close> (missing from the repository's files).
\<close>

definition intersection :: "box \<Rightarrow> box \<Rightarrow> real" where
  "intersection a b =
     max 0 (min (x2 a) (x2 b) - max (x1 a) (x1 b)) *
     max 0 (min (y2 a) (y2 b) - max (y1 a) (y1 b))"

text \<open>
  Modelled from the spec: the intersection over union of \<open>torchvision.ops.nms\<close> (missing
  from the repository's files). A pair of boxes whose union has no area has no defined
  IoU; it is taken as \<open>0\<close>, so such a pair never suppresses for a non-negative threshold.
\<close>

definition iou :: "box \<Rightarrow> box \<Rightarrow> real" where
  "iou a b =
     (let i = intersection a b; u = area a + area b - i
      in if u = 0 then 0 else i / u)"

text \<open>
  Modelled from the spec: the greedy pass of \<open>torchvision.ops.nms\<close> (missing from the
  repository's files) over the row indices, already in decreasing order of score: the
  head is kept, and the rows whose IoU with it exceeds \<open>t\<close> are removed from the rest.
\<close>

fun greedy :: "real \<Rightarrow> box list \<Rightarrow> nat list \<Rightarrow> nat list" where
  "greedy t bs [] = []"
| "greedy t bs (i # rest) =
     i # greedy t bs (filter (\<lambda>j. \<not> iou (bs ! i) (bs ! j) > t) rest)"

text \<open>
  Modelled from the spec: \<open>torchvision.ops.nms\<close> (missing from the repository's files),
  with the arguments of the call in \<open>run_moe\<close>. The rows are sorted by score descending
  (\<open>sort_key\<close> is a stable insertion sort, so equal scores stay in insertion order) and
  the greedy pass runs over them; the result is the list of kept row indices in decreasing
  order of score, as the call site uses it (\<open>all_boxes_combined[keep_indices]\<close>).
  \<open>scores\<close> has one entry per box at the only call site.
\<close>

definition nms :: "box list \<Rightarrow> real list \<Rightarrow> real \<Rightarrow> nat list" where
  "nms bs scores t = greedy t bs (sort_key (\<lambda>i. - (scores ! i)) [0..<length bs])"

section \<open>Single-view inference: \<open>run_moe\<close>\<close>

text \<open>
  \<open>preprocess_image\<close>, \<open>get_gate_weights\<close> and the expert models are opaque: the model
  takes what they return for the image, the gate-weight vector \<open>gate_weights\<close> and one
  \<open>expert_result\<close> per expert, as inputs.
\<close>

definition scale_conf :: "real \<Rightarrow> detection \<Rightarrow> detection" where
  "scale_conf weight d = d\<lparr>conf := conf d * weight\<rparr>"

text \<open>
  The body of the loop for one expert: \<open>conf = result.boxes.conf * weight\<close>,
  \<open>keep_mask = conf > conf_threshold\<close>, and the rows under the mask with the scaled
  confidence.
\<close>

fun expert_keep :: "real \<Rightarrow> real \<Rightarrow> expert_result \<Rightarrow> detection list" where
  "expert_keep weight conf_threshold None = []"
| "expert_keep weight conf_threshold (Some ds) =
     filter (\<lambda>d. conf d > conf_threshold) (map (scale_conf weight) ds)"

text \<open>
  The loop \<open>for i, expert in enumerate(experts)\<close>: \<open>gate_weights[i]\<close> raises when the
  vector is too short; a block of kept rows is appended to \<open>all_boxes_raw\<close> only when
  \<open>keep_mask.sum() > 0\<close>.
\<close>

fun collect ::
  "real list \<Rightarrow> real \<Rightarrow> nat \<Rightarrow> expert_result list \<Rightarrow> detection list list
   \<Rightarrow> error + detection list list" where
  "collect gate_weights conf_threshold i [] all_boxes_raw = Inr all_boxes_raw"
| "collect gate_weights conf_threshold i (result # rest) all_boxes_raw =
     (if i < length gate_weights
      then (let kept = expert_keep (gate_weights ! i) conf_threshold result
            in collect gate_weights conf_threshold (Suc i) rest
                 (if kept \<noteq> [] then all_boxes_raw @ [kept] else all_boxes_raw))
      else Inl IndexError)"

text \<open>
  Step 5 of \<open>run_moe\<close>: the rows of the merged pool that \<open>nms\<close> keeps. Only the boxes
  and the scores are handed to \<open>nms\<close>; the class column is not.
\<close>

definition nms_select :: "real \<Rightarrow> detection list \<Rightarrow> detection list" where
  "nms_select iou_threshold all_boxes_combined =
     map (\<lambda>i. all_boxes_combined ! i)
       (nms (map xyxy all_boxes_combined) (map conf all_boxes_combined) iou_threshold)"

text \<open>
  The function returns \<open>[]\<close> or a one-element list \<open>[kept_boxes]\<close>; \<open>kept_boxes\<close> is
  modelled by the list of its rows.
\<close>

definition run_moe ::
  "real list \<Rightarrow> expert_result list \<Rightarrow> real \<Rightarrow> real \<Rightarrow> error + detection list list" where
  "run_moe gate_weights experts conf_threshold iou_threshold =
     (case collect gate_weights conf_threshold 0 experts [] of
        Inl e \<Rightarrow> Inl e
      | Inr all_boxes_raw \<Rightarrow>
          if all_boxes_raw = [] then Inr []
          else Inr [nms_select iou_threshold (concat all_boxes_raw)])"

text \<open>
  The merged pool \<open>all_boxes_combined\<close> written without the loop: the rows of every
  expert that pass the threshold after scaling, expert by expert.
\<close>

definition survivors :: "real list \<Rightarrow> real \<Rightarrow> expert_result list \<Rightarrow> detection list" where
  "survivors gate_weights conf_threshold experts =
     concat (map (\<lambda>i. expert_keep (gate_weights ! i) conf_threshold (experts ! i))
               [0..<length experts])"

text \<open>
  Modelled from the spec: the greedy pass of \<open>torchvision.ops.nms\<close> (missing from the
  repository's files) on the rows themselves instead of their indices; \<open>nms_select\<close> is
  proved equal to it on the rows sorted by score descending, and the proofs go through it.
\<close>

fun greedy_rows :: "real \<Rightarrow> detection list \<Rightarrow> detection list" where
  "greedy_rows t [] = []"
| "greedy_rows t (d # rest) =
     d # greedy_rows t (filter (\<lambda>e. \<not> iou (xyxy d) (xyxy e) > t) rest)"

text \<open>Changing the class column only, by a map \<open>g\<close> on class ids.\<close>

definition relabel :: "(int \<Rightarrow> int) \<Rightarrow> detection \<Rightarrow> detection" where
  "relabel g d = d\<lparr>cls := g (cls d)\<rparr>"

section \<open>Multi-view inference: \<open>run_moe_with_tta\<close>\<close>

text \<open>The four entries of \<open>augmentations\<close>, in the order of the source.\<close>

datatype view = Original | HFlip | Bright | Contrast

definition augmentations :: "view list" where
  "augmentations = [Original, HFlip, Bright, Contrast]"

text \<open>
  \<open>norm_boxes[:, [0,2]] /= img_w\<close> and \<open>norm_boxes[:, [1,3]] /= img_h\<close>, where
  \<open>img_w, img_h = original_img.size\<close> is the size of the original image, and the
  inverse scaling applied to the fused boxes. An opened image has positive width and
  height; the theorems below assume so.
\<close>

definition normalize_box :: "nat \<Rightarrow> nat \<Rightarrow> box \<Rightarrow> box" where
  "normalize_box img_w img_h b =
     \<lparr>x1 = x1 b / real img_w, y1 = y1 b / real img_h,
      x2 = x2 b / real img_w, y2 = y2 b / real img_h\<rparr>"

definition denormalize_box :: "nat \<Rightarrow> nat \<Rightarrow> box \<Rightarrow> box" where
  "denormalize_box img_w img_h b =
     \<lparr>x1 = x1 b * real img_w, y1 = y1 b * real img_h,
      x2 = x2 b * real img_w, y2 = y2 b * real img_h\<rparr>"

text \<open>The three parallel lists the loop over the views fills.\<close>

record tta_lists =
  all_boxes :: "box list list"
  all_scores :: "real list list"
  all_labels :: "int list list"

text \<open>
  The loop \<open>for aug_name, aug_img in augmentations\<close>. \<open>model v\<close> is what the gating
  network and the experts return on the image of view \<open>v\<close>: the gate weights and one
  result per expert. A view whose \<open>run_moe\<close> result is \<open>[]\<close> is skipped; otherwise the
  rows of \<open>aug_boxes[0]\<close> are normalized and appended. An exception of \<open>run_moe\<close>
  propagates.
\<close>

fun tta_collect ::
  "nat \<Rightarrow> nat \<Rightarrow> (view \<Rightarrow> real list \<times> expert_result list) \<Rightarrow> real \<Rightarrow> real
   \<Rightarrow> view list \<Rightarrow> tta_lists \<Rightarrow> error + tta_lists" where
  "tta_collect img_w img_h model conf_threshold iou_threshold [] acc = Inr acc"
| "tta_collect img_w img_h model conf_threshold iou_threshold (v # rest) acc =
     (case run_moe (fst (model v)) (snd (model v)) conf_threshold iou_threshold of
        Inl e \<Rightarrow> Inl e
      | Inr aug_boxes \<Rightarrow>
          (case aug_boxes of
             [] \<Rightarrow> tta_collect img_w img_h model conf_threshold iou_threshold rest acc
           | kept # _ \<Rightarrow>
               tta_collect img_w img_h model conf_threshold iou_threshold rest
                 (acc\<lparr>all_boxes := all_boxes acc @ [map (\<lambda>d. normalize_box img_w img_h (xyxy d)) kept],
                      all_scores := all_scores acc @ [map conf kept],
                      all_labels := all_labels acc @ [map cls kept]\<rparr>)))"

definition no_lists :: tta_lists where
  "no_lists = \<lparr>all_boxes = [], all_scores = [], all_labels = []\<rparr>"

text \<open>
  \<open>weighted_boxes_fusion\<close> comes from the package \<open>ensemble_boxes\<close>; it is a parameter
  \<open>wbf\<close> here, called as in the source with \<open>iou_thr = iou_threshold\<close> and
  \<open>skip_box_thr = conf_threshold\<close>, and returning the fused boxes, scores and labels.
  The result is \<open>[]\<close> or the one-element list \<open>[kept_boxes]\<close>.
\<close>

type_synonym fusion =
  "box list list \<Rightarrow> real list list \<Rightarrow> int list list \<Rightarrow> real \<Rightarrow> real
   \<Rightarrow> box list \<times> real list \<times> int list"

definition run_moe_with_tta ::
  "fusion \<Rightarrow> nat \<Rightarrow> nat \<Rightarrow> (view \<Rightarrow> real list \<times> expert_result list) \<Rightarrow> real \<Rightarrow> real
   \<Rightarrow> error + detection list list" where
  "run_moe_with_tta wbf img_w img_h model conf_threshold iou_threshold =
     (case tta_collect img_w img_h model conf_threshold iou_threshold augmentations no_lists of
        Inl e \<Rightarrow> Inl e
      | Inr acc \<Rightarrow>
          if all_boxes acc = [] then Inr []
          else (case wbf (all_boxes acc) (all_scores acc) (all_labels acc)
                       iou_threshold conf_threshold of
                  (boxes_list, scores_list, labels_list) \<Rightarrow>
                    Inr [map (\<lambda>(b, s, l). \<lparr>xyxy = denormalize_box img_w img_h b, conf = s, cls = l\<rparr>)
                           (zip boxes_list (zip scores_list labels_list))]))"

text \<open>Boxes inside an image of the given size, and boxes inside the unit square.\<close>

definition within_image :: "nat \<Rightarrow> nat \<Rightarrow> box \<Rightarrow> bool" where
  "within_image img_w img_h b =
     (0 \<le> x1 b \<and> x1 b \<le> real img_w \<and> 0 \<le> x2 b \<and> x2 b \<le> real img_w \<and>
      0 \<le> y1 b \<and> y1 b \<le> real img_h \<and> 0 \<le> y2 b \<and> y2 b \<le> real img_h)"

definition in_unit_square :: "box \<Rightarrow> bool" where
  "in_unit_square b =
     (0 \<le> x1 b \<and> x1 b \<le> 1 \<and> 0 \<le> x2 b \<and> x2 b \<le> 1 \<and>
      0 \<le> y1 b \<and> y1 b \<le> 1 \<and> 0 \<le> y2 b \<and> y2 b \<le> 1)"

section \<open>The confidence of a fused cluster\<close>

text \<open>
  Modelled from the spec: the mean of the member confidences of a cluster of
  \<open>weighted_boxes_fusion\<close> (package \<open>ensemble_boxes\<close>, missing from the repository's
  files). The mean of no confidences is taken as \<open>0\<close>.
\<close>

definition mean :: "real list \<Rightarrow> real" where
  "mean confidences = sum_list confidences / real (length confidences)"

text \<open>
  Modelled from the spec: the confidence that \<open>weighted_boxes_fusion\<close> (package
  \<open>ensemble_boxes\<close>, missing from the repository's files) gives a cluster. Step 5 of the
  spec's section 4.5 states it as
  \<open>mean(confidences) * min(cluster_size, num_views) / num_views\<close>.
\<close>

definition fused_confidence :: "real list \<Rightarrow> nat \<Rightarrow> real" where
  "fused_confidence confidences num_views =
     mean confidences * real (min (length confidences) num_views) / real num_views"

section \<open>Concrete inputs\<close>

text \<open>The two expert detections of the end-to-end scenario.\<close>

definition scenario_expert0 :: detection where
  "scenario_expert0 = \<lparr>xyxy = \<lparr>x1 = 10, y1 = 10, x2 = 50, y2 = 50\<rparr>, conf = 0.9, cls = 0\<rparr>"

definition scenario_expert1 :: detection where
  "scenario_expert1 = \<lparr>xyxy = \<lparr>x1 = 12, y1 = 12, x2 = 48, y2 = 48\<rparr>, conf = 0.95, cls = 0\<rparr>"

text \<open>
  A pool of four rows: a wide box, a narrow one in its middle with the highest score,
  and two boxes covering its left and right ends.
\<close>

definition pool4 :: "detection list" where
  "pool4 =
     [\<lparr>xyxy = \<lparr>x1 = 4, y1 = 0, x2 = 6, y2 = 1\<rparr>, conf = 0.9, cls = 0\<rparr>,
      \<lparr>xyxy = \<lparr>x1 = 0, y1 = 0, x2 = 10, y2 = 1\<rparr>, conf = 0.8, cls = 0\<rparr>,
      \<lparr>xyxy = \<lparr>x1 = 0, y1 = 0, x2 = 4, y2 = 1\<rparr>, conf = 0.7, cls = 0\<rparr>,
      \<lparr>xyxy = \<lparr>x1 = 6, y1 = 0, x2 = 10, y2 = 1\<rparr>, conf = 0.6, cls = 0\<rparr>]"

text \<open>
  Every view returns one detection that spans 200 pixels in \<open>x\<close>, from a single expert of
  weight 1.
\<close>

definition wide_model :: "view \<Rightarrow> real list \<times> expert_result list" where
  "wide_model v =
     ([1], [Some [\<lparr>xyxy = \<lparr>x1 = 0, y1 = 0, x2 = 200, y2 = 100\<rparr>, conf = 0.9, cls = 0\<rparr>]])"

text \<open>
  Four views that differ, for an original image 100 wide and 200 high: the original view
  returns two disjoint detections, the flipped view one, the brightened view none, and
  the contrast view one that covers the whole image.
\<close>

definition varied_model :: "view \<Rightarrow> real list \<times> expert_result list" where
  "varied_model v =
     (case v of
        Original \<Rightarrow>
          ([1], [Some [\<lparr>xyxy = \<lparr>x1 = 10, y1 = 20, x2 = 50, y2 = 100\<rparr>, conf = 0.9, cls = 0\<rparr>,
                       \<lparr>xyxy = \<lparr>x1 = 60, y1 = 120, x2 = 100, y2 = 200\<rparr>, conf = 0.8, cls = 1\<rparr>]])
      | HFlip \<Rightarrow>
          ([1], [Some [\<lparr>xyxy = \<lparr>x1 = 50, y1 = 20, x2 = 90, y2 = 100\<rparr>, conf = 0.7, cls = 0\<rparr>]])
      | Bright \<Rightarrow> ([1], [Some []])
      | Contrast \<Rightarrow>
          ([1], [Some [\<lparr>xyxy = \<lparr>x1 = 0, y1 = 0, x2 = 100, y2 = 200\<rparr>, conf = 0.6, cls = 0\<rparr>]]))"

text \<open>No view returns a detection.\<close>

definition blank_model :: "view \<Rightarrow> real list \<times> expert_result list" where
  "blank_model v = ([1], [Some []])"

text \<open>Two rows of different classes that overlap with an IoU of 0.81.\<close>

definition mixed_pool :: "detection list" where
  "mixed_pool =
     [\<lparr>xyxy = \<lparr>x1 = 10, y1 = 10, x2 = 50, y2 = 50\<rparr>, conf = 0.9, cls = 0\<rparr>,
      \<lparr>xyxy = \<lparr>x1 = 12, y1 = 12, x2 = 48, y2 = 48\<rparr>, conf = 0.8, cls = 1\<rparr>]"

section \<open>Auxiliary lemmas\<close>

lemma greedy_map_nth:
  "bs = map xyxy ds \<Longrightarrow> \<forall>i\<in>set is. i < length ds \<Longrightarrow>
   map ((!) ds) (greedy t bs is) = greedy_rows t (map ((!) ds) is)"
proof (induction t bs "is" rule: greedy.induct)
  case (1 t bs)
  then show ?case by simp
next
  case (2 t bs i rest)
  let ?P = "\<lambda>j. \<not> iou (bs ! i) (bs ! j) > t"
  let ?Q = "\<lambda>e. \<not> iou (xyxy (ds ! i)) (xyxy e) > t"
  have i: "i < length ds" and rest: "\<forall>j\<in>set rest. j < length ds"
    using "2.prems"(2) by simp_all
  have flt: "filter ?P rest = filter (?Q \<circ> (!) ds) rest"
    using i rest "2.prems"(1) by (intro filter_cong) simp_all
  have "map ((!) ds) (greedy t bs (filter ?P rest)) = greedy_rows t (map ((!) ds) (filter ?P rest))"
    using "2.IH" "2.prems"(1) rest by simp
  also have "map ((!) ds) (filter ?P rest) = filter ?Q (map ((!) ds) rest)"
    unfolding flt by (simp add: filter_map)
  finally show ?case by simp
qed

lemma map_insort_key:
  "f x = k (g x) \<Longrightarrow> \<forall>y\<in>set ys. f y = k (g y) \<Longrightarrow>
   map g (insort_key f x ys) = insort_key k (g x) (map g ys)"
  by (induction ys) simp_all

lemma map_sort_key:
  "\<forall>y\<in>set ys. f y = k (g y) \<Longrightarrow> map g (sort_key f ys) = sort_key k (map g ys)"
  by (induction ys) (simp_all add: map_insort_key)

lemma nms_select_eq:
  "nms_select t ds = greedy_rows t (sort_key (\<lambda>d. - conf d) ds)"
proof -
  let ?idx = "sort_key (\<lambda>i. - (map conf ds ! i)) [0..<length ds]"
  have in_range: "\<forall>i\<in>set ?idx. i < length ds" by simp
  have "map ((!) ds) ?idx = sort_key (\<lambda>d. - conf d) (map ((!) ds) [0..<length ds])"
    by (rule map_sort_key) simp
  then have sorted_rows: "map ((!) ds) ?idx = sort_key (\<lambda>d. - conf d) ds"
    by (simp add: map_nth)
  have "nms_select t ds = map ((!) ds) (greedy t (map xyxy ds) ?idx)"
    by (simp add: nms_select_def nms_def)
  also have "\<dots> = greedy_rows t (map ((!) ds) ?idx)"
    using in_range by (intro greedy_map_nth) simp_all
  finally show ?thesis by (simp only: sorted_rows)
qed

lemma greedy_rows_subset: "set (greedy_rows t xs) \<subseteq> set xs"
  by (induction t xs rule: greedy_rows.induct) auto

lemma greedy_rows_sorted:
  "sorted (map k xs) \<Longrightarrow> sorted (map k (greedy_rows t xs))"
proof (induction t xs rule: greedy_rows.induct)
  case (1 t)
  then show ?case by simp
next
  case (2 t d rest)
  let ?ys = "filter (\<lambda>e. \<not> iou (xyxy d) (xyxy e) > t) rest"
  have "sorted (map k ?ys)" using "2.prems" by (simp add: sorted_filter)
  then have "sorted (map k (greedy_rows t ?ys))" by (rule "2.IH")
  moreover have "\<forall>e\<in>set (greedy_rows t ?ys). k d \<le> k e"
    using greedy_rows_subset[of t ?ys] "2.prems" by auto
  ultimately show ?case by simp
qed

lemma greedy_rows_filter_id:
  assumes "\<forall>e\<in>set xs. Q e"
  shows "filter Q (greedy_rows t xs) = greedy_rows t xs"
proof (rule filter_True)
  show "\<forall>e\<in>set (greedy_rows t xs). Q e"
    using assms greedy_rows_subset[of t xs] by blast
qed

lemma greedy_rows_idem: "greedy_rows t (greedy_rows t xs) = greedy_rows t xs"
proof (induction t xs rule: greedy_rows.induct)
  case (1 t)
  show ?case by simp
next
  case (2 t d rest)
  let ?Q = "\<lambda>e. \<not> iou (xyxy d) (xyxy e) > t"
  have keep: "filter ?Q (greedy_rows t (filter ?Q rest)) = greedy_rows t (filter ?Q rest)"
    by (rule greedy_rows_filter_id) simp
  have "greedy_rows t (greedy_rows t (d # rest)) =
        d # greedy_rows t (filter ?Q (greedy_rows t (filter ?Q rest)))"
    by (simp only: greedy_rows.simps)
  also have "\<dots> = d # greedy_rows t (greedy_rows t (filter ?Q rest))"
    by (simp only: keep)
  also have "\<dots> = d # greedy_rows t (filter ?Q rest)"
    by (simp only: "2.IH")
  finally show ?case by (simp only: greedy_rows.simps)
qed

lemma greedy_rows_pairwise:
  "sorted_wrt (\<lambda>a b. \<not> iou (xyxy a) (xyxy b) > t) (greedy_rows t xs)"
proof (induction t xs rule: greedy_rows.induct)
  case (1 t)
  show ?case by simp
next
  case (2 t d rest)
  let ?Q = "\<lambda>e. \<not> iou (xyxy d) (xyxy e) > t"
  have "\<forall>e\<in>set (filter ?Q rest). ?Q e" by simp
  then have "\<forall>e\<in>set (greedy_rows t (filter ?Q rest)). ?Q e"
    using greedy_rows_subset[of t "filter ?Q rest"] by blast
  then show ?case using "2.IH" by (simp only: greedy_rows.simps sorted_wrt.simps simp_thms)
qed


lemma set_nms_select: "set (nms_select t ds) \<subseteq> set ds"
proof -
  have "set (greedy_rows t (sort_key (\<lambda>d. - conf d) ds)) \<subseteq> set (sort_key (\<lambda>d. - conf d) ds)"
    by (rule greedy_rows_subset)
  then show ?thesis by (simp add: nms_select_eq)
qed

lemma greedy_rows_hd: "xs \<noteq> [] \<Longrightarrow> greedy_rows t xs \<noteq> [] \<and> hd (greedy_rows t xs) = hd xs"
  by (cases xs) simp_all

lemma sort_desc_hd:
  assumes "ds \<noteq> []"
  shows "hd (sort_key (\<lambda>d. - conf d) ds) \<in> set ds \<and>
         (\<forall>d\<in>set ds. conf d \<le> conf (hd (sort_key (\<lambda>d. - conf d) ds)))"
proof -
  let ?s = "sort_key (\<lambda>d. - conf d) ds"
  have ne: "?s \<noteq> []" using assms by (metis length_0_conv length_sort)
  then obtain a rest where s: "?s = a # rest" by (cases ?s) auto
  have "sorted (map (\<lambda>d. - conf d) ?s)" by simp
  then have "\<forall>d\<in>set rest. - conf a \<le> - conf d" unfolding s by simp
  then have le: "\<forall>d\<in>set ?s. conf d \<le> conf a" unfolding s by simp
  have "a \<in> set ?s" unfolding s by simp
  then have "a \<in> set ds" by simp
  moreover have "\<forall>d\<in>set ds. conf d \<le> conf a" using le by simp
  ultimately show ?thesis unfolding s by simp
qed

lemma nms_select_hd:
  assumes "ds \<noteq> []"
  shows "nms_select t ds \<noteq> [] \<and> hd (nms_select t ds) \<in> set ds \<and>
         (\<forall>d\<in>set ds. conf d \<le> conf (hd (nms_select t ds)))"
proof -
  let ?s = "sort_key (\<lambda>d. - conf d) ds"
  have ne: "?s \<noteq> []" using assms by (metis length_0_conv length_sort)
  have "greedy_rows t ?s \<noteq> [] \<and> hd (greedy_rows t ?s) = hd ?s"
    using ne by (rule greedy_rows_hd)
  then show ?thesis using sort_desc_hd[OF assms] by (simp only: nms_select_eq) simp
qed

lemma concat_filter_nonempty: "concat (filter (\<lambda>k. k \<noteq> []) xss) = concat xss"
  by (induction xss) simp_all

lemma filter_nonempty_Nil: "filter (\<lambda>k. k \<noteq> []) xss = [] \<longleftrightarrow> concat xss = []"
  by (induction xss) simp_all

lemma collect_eq:
  "i + length experts \<le> length gw \<Longrightarrow>
   collect gw ct i experts acc =
     Inr (acc @ filter (\<lambda>k. k \<noteq> [])
            (map (\<lambda>j. expert_keep (gw ! (i + j)) ct (experts ! j)) [0..<length experts]))"
proof (induction experts arbitrary: i acc)
  case Nil
  show ?case by simp
next
  case (Cons r rest)
  have i: "i < length gw" and rest: "Suc i + length rest \<le> length gw"
    using Cons.prems by simp_all
  have split: "[0..<length (r # rest)] = 0 # map Suc [0..<length rest]"
    by (simp add: upt_conv_Cons map_Suc_upt del: upt_Suc)
  show ?case
    unfolding split using i Cons.IH[OF rest]
    by (simp add: Let_def comp_def)
qed

lemma collect_short:
  "i \<le> length gw \<Longrightarrow> \<not> i + length experts \<le> length gw \<Longrightarrow>
   collect gw ct i experts acc = Inl IndexError"
proof (induction experts arbitrary: i acc)
  case Nil
  then show ?case by simp
next
  case (Cons r rest)
  show ?case
  proof (cases "i < length gw")
    case True
    have "Suc i \<le> length gw" "\<not> Suc i + length rest \<le> length gw"
      using True Cons.prems by simp_all
    then have "collect gw ct (Suc i) rest acc' = Inl IndexError" for acc'
      by (rule Cons.IH)
    then show ?thesis using True by (simp add: Let_def)
  next
    case False
    then show ?thesis by simp
  qed
qed

lemma run_moe_eq:
  assumes "length experts \<le> length gw"
  shows "run_moe gw experts ct it =
           (if survivors gw ct experts = [] then Inr []
            else Inr [nms_select it (survivors gw ct experts)])"
proof -
  let ?blocks = "map (\<lambda>j. expert_keep (gw ! j) ct (experts ! j)) [0..<length experts]"
  have c: "collect gw ct 0 experts [] = Inr (filter (\<lambda>k. k \<noteq> []) ?blocks)"
    using collect_eq[where i = 0 and experts = experts and gw = gw and ct = ct and acc = "[]"] assms
    by simp
  show ?thesis
    unfolding run_moe_def c survivors_def
    by (simp add: concat_filter_nonempty filter_nonempty_Nil)
qed

lemma run_moe_short:
  "length gw < length experts \<Longrightarrow> run_moe gw experts ct it = Inl IndexError"
  using collect_short[where i = 0 and experts = experts and gw = gw and ct = ct and acc = "[]"]
  by (simp add: run_moe_def)

lemma greedy_subset: "set (greedy t bs is) \<subseteq> set is"
  by (induction t bs "is" rule: greedy.induct) auto

lemma nms_in_range: "i \<in> set (nms bs scores t) \<Longrightarrow> i < length bs"
proof -
  assume "i \<in> set (nms bs scores t)"
  then have "i \<in> set (sort_key (\<lambda>i. - (scores ! i)) [0..<length bs])"
    unfolding nms_def using greedy_subset by blast
  then show ?thesis by simp
qed

lemma greedy_rows_mono3:
  assumes "t1 \<le> t2" and "length xs \<le> 3"
  shows "length (greedy_rows t1 xs) \<le> length (greedy_rows t2 xs)"
proof -
  consider "xs = []" | a where "xs = [a]" | a b where "xs = [a, b]"
    | a b c where "xs = [a, b, c]"
  proof (cases xs)
    case Nil
    then show ?thesis using that by blast
  next
    case (Cons a ys)
    note xs = this
    show ?thesis
    proof (cases ys)
      case Nil
      then show ?thesis using xs that by blast
    next
      case (Cons b zs)
      note ys = this
      show ?thesis
      proof (cases zs)
        case Nil
        then show ?thesis using xs ys that by blast
      next
        case (Cons c ws)
        then have "ws = []" using xs ys assms(2) by simp
        then show ?thesis using xs ys Cons that by blast
      qed
    qed
  qed
  then show ?thesis
  proof cases
    case 1
    then show ?thesis by simp
  next
    case 2
    then show ?thesis by simp
  next
    case 3
    then show ?thesis using assms(1) by auto
  next
    case 4
    then show ?thesis using assms(1) by auto
  qed
qed

lemma expert_keep_relabel:
  "expert_keep w ct (map_option (map (relabel g)) r) = map (relabel g) (expert_keep w ct r)"
  by (cases r) (simp_all add: relabel_def scale_conf_def filter_map comp_def)

lemma survivors_relabel:
  "survivors gw ct (map (map_option (map (relabel g))) experts) =
   map (relabel g) (survivors gw ct experts)"
proof -
  have "map (\<lambda>i. expert_keep (gw ! i) ct (map (map_option (map (relabel g))) experts ! i))
          [0..<length experts] =
        map (\<lambda>i. map (relabel g) (expert_keep (gw ! i) ct (experts ! i))) [0..<length experts]"
    by (rule map_cong) (simp_all add: expert_keep_relabel)
  then show ?thesis unfolding survivors_def length_map by (simp only: map_concat map_map comp_def)
qed

lemma nms_select_relabel:
  "nms_select t (map (relabel g) ds) = map (relabel g) (nms_select t ds)"
proof -
  have b: "map xyxy (map (relabel g) ds) = map xyxy ds"
    and c: "map conf (map (relabel g) ds) = map conf ds"
    by (simp_all add: relabel_def)
  let ?keep = "nms (map xyxy ds) (map conf ds) t"
  have "map (\<lambda>i. map (relabel g) ds ! i) ?keep = map (\<lambda>i. relabel g (ds ! i)) ?keep"
  proof (rule map_cong)
    fix i assume "i \<in> set ?keep"
    then have "i < length ds" using nms_in_range[of i "map xyxy ds"] by simp
    then show "map (relabel g) ds ! i = relabel g (ds ! i)" by simp
  qed simp
  then show ?thesis unfolding nms_select_def b c by (simp add: comp_def)
qed

lemma run_moe_relabel:
  "run_moe gw (map (map_option (map (relabel g))) experts) ct it =
   map_sum id (map (map (relabel g))) (run_moe gw experts ct it)"
proof (cases "length experts \<le> length gw")
  case True
  then have "length (map (map_option (map (relabel g))) experts) \<le> length gw" by simp
  then show ?thesis
    using True by (simp add: run_moe_eq survivors_relabel nms_select_relabel)
next
  case False
  then have "length gw < length experts"
    and "length gw < length (map (map_option (map (relabel g))) experts)" by simp_all
  then show ?thesis by (simp only: run_moe_short) simp
qed

lemma run_moe_kept_pairwise:
  assumes "run_moe gw experts ct it = Inr r" and "kept \<in> set r"
  shows "sorted_wrt (\<lambda>a b. iou (xyxy a) (xyxy b) \<le> it) kept"
proof (cases "length experts \<le> length gw")
  case True
  then have k: "kept = nms_select it (survivors gw ct experts)"
    using assms by (auto simp add: run_moe_eq split: if_splits)
  have "sorted_wrt (\<lambda>a b. \<not> iou (xyxy a) (xyxy b) > it) kept"
    unfolding k nms_select_eq by (rule greedy_rows_pairwise)
  then show ?thesis by (simp add: not_less)
next
  case False
  then have "run_moe gw experts ct it = Inl IndexError" by (simp add: run_moe_short)
  then show ?thesis using assms by simp
qed

lemma expert_keep_empty: "r = None \<or> r = Some [] \<Longrightarrow> expert_keep w ct r = []"
  by auto

lemma survivors_empty:
  assumes "\<forall>r\<in>set experts. r = None \<or> r = Some []"
  shows "survivors gw ct experts = []"
proof -
  have "expert_keep (gw ! i) ct (experts ! i) = []" if "i < length experts" for i
    using assms that by (intro expert_keep_empty) (metis nth_mem)
  then show ?thesis by (simp add: survivors_def)
qed

lemma tta_collect_all_empty:
  "\<forall>v\<in>set vs. run_moe (fst (model v)) (snd (model v)) ct it = Inr [] \<Longrightarrow>
   tta_collect img_w img_h model ct it vs acc = Inr acc"
  by (induction vs) simp_all

lemma survivors_origin:
  assumes "d \<in> set (survivors gw ct experts)"
  shows "\<exists>ds d0. Some ds \<in> set experts \<and> d0 \<in> set ds \<and> xyxy d = xyxy d0"
proof -
  from assms obtain i where i: "i < length experts"
    and d: "d \<in> set (expert_keep (gw ! i) ct (experts ! i))"
    by (auto simp add: survivors_def)
  then obtain ds where ds: "experts ! i = Some ds" by (cases "experts ! i") auto
  with d obtain d0 where "d0 \<in> set ds" "d = scale_conf (gw ! i) d0" by auto
  moreover have "Some ds \<in> set experts" using i ds by (metis nth_mem)
  ultimately show ?thesis by (auto simp add: scale_conf_def)
qed

lemma run_moe_origin:
  assumes "run_moe gw experts ct it = Inr (kept # r)" and "d \<in> set kept"
  shows "\<exists>ds d0. Some ds \<in> set experts \<and> d0 \<in> set ds \<and> xyxy d = xyxy d0"
proof (cases "length experts \<le> length gw")
  case True
  then have "kept = nms_select it (survivors gw ct experts)"
    using assms(1) by (auto simp add: run_moe_eq split: if_splits)
  then have "d \<in> set (survivors gw ct experts)"
    using assms(2) set_nms_select by blast
  then show ?thesis by (rule survivors_origin)
next
  case False
  then have "run_moe gw experts ct it = Inl IndexError" by (simp add: run_moe_short)
  then show ?thesis using assms by simp
qed

lemma run_moe_returns:
  "length experts \<le> length gw \<Longrightarrow> \<exists>r. run_moe gw experts ct it = Inr r"
  by (simp add: run_moe_eq)

lemma normalize_in_unit_square:
  assumes "0 < img_w" and "0 < img_h" and "within_image img_w img_h b"
  shows "in_unit_square (normalize_box img_w img_h b)"
  using assms by (simp add: within_image_def in_unit_square_def normalize_box_def)

lemma tta_collect_invariant:
  assumes "\<forall>v\<in>set vs. \<exists>r. run_moe (fst (model v)) (snd (model v)) ct it = Inr r"
    and "\<And>v kept r d. v \<in> set vs \<Longrightarrow>
           run_moe (fst (model v)) (snd (model v)) ct it = Inr (kept # r) \<Longrightarrow>
           d \<in> set kept \<Longrightarrow> Q (normalize_box img_w img_h (xyxy d))"
    and "\<forall>bs\<in>set (all_boxes acc). \<forall>b\<in>set bs. Q b"
  shows "\<exists>acc'. tta_collect img_w img_h model ct it vs acc = Inr acc' \<and>
           (\<forall>bs\<in>set (all_boxes acc'). \<forall>b\<in>set bs. Q b)"
  using assms
proof (induction vs arbitrary: acc)
  case Nil
  then show ?case by simp
next
  case (Cons v vs)
  from Cons.prems(1) obtain r where r: "run_moe (fst (model v)) (snd (model v)) ct it = Inr r"
    by auto
  have rest: "\<forall>v\<in>set vs. \<exists>r. run_moe (fst (model v)) (snd (model v)) ct it = Inr r"
    using Cons.prems(1) by simp
  have step: "Q (normalize_box img_w img_h (xyxy d))"
    if "u \<in> set vs" "run_moe (fst (model u)) (snd (model u)) ct it = Inr (kept # r)"
      "d \<in> set kept" for u kept r d
    using Cons.prems(2)[of u kept r d] that by simp
  show ?case
  proof (cases r)
    case Nil
    then show ?thesis
      using r Cons.IH[OF rest step Cons.prems(3)] by simp
  next
    case (Cons kept r')
    let ?acc = "acc\<lparr>all_boxes := all_boxes acc @ [map (\<lambda>d. normalize_box img_w img_h (xyxy d)) kept],
                      all_scores := all_scores acc @ [map conf kept],
                      all_labels := all_labels acc @ [map cls kept]\<rparr>"
    have "\<forall>d\<in>set kept. Q (normalize_box img_w img_h (xyxy d))"
      using Cons.prems(2)[of v kept r'] r Cons by simp
    then have inv: "\<forall>bs\<in>set (all_boxes ?acc). \<forall>b\<in>set bs. Q b"
      using Cons.prems(3) by auto
    show ?thesis
      using r Cons Cons.IH[OF rest step inv] by simp
  qed
qed

lemma tta_collect_eq:
  assumes "\<forall>v\<in>set vs. \<exists>r. run_moe (fst (model v)) (snd (model v)) ct it = Inr r"
  shows "\<exists>acc'. tta_collect img_w img_h model ct it vs acc = Inr acc' \<and>
           all_boxes acc' = all_boxes acc @
             map (map (\<lambda>d. normalize_box img_w img_h (xyxy d)))
               (concat (map (\<lambda>v. case run_moe (fst (model v)) (snd (model v)) ct it of
                                    Inl e \<Rightarrow> [] | Inr r \<Rightarrow> take 1 r) vs)) \<and>
           all_scores acc' = all_scores acc @
             map (map conf)
               (concat (map (\<lambda>v. case run_moe (fst (model v)) (snd (model v)) ct it of
                                    Inl e \<Rightarrow> [] | Inr r \<Rightarrow> take 1 r) vs)) \<and>
           all_labels acc' = all_labels acc @
             map (map cls)
               (concat (map (\<lambda>v. case run_moe (fst (model v)) (snd (model v)) ct it of
                                    Inl e \<Rightarrow> [] | Inr r \<Rightarrow> take 1 r) vs))"
  using assms
proof (induction vs arbitrary: acc)
  case Nil
  show ?case by simp
next
  case (Cons v vs)
  from Cons.prems obtain r where r: "run_moe (fst (model v)) (snd (model v)) ct it = Inr r"
    by auto
  have rest: "\<forall>v\<in>set vs. \<exists>r. run_moe (fst (model v)) (snd (model v)) ct it = Inr r"
    using Cons.prems by simp
  show ?case
  proof (cases r)
    case Nil
    show ?thesis using Cons.IH[OF rest, of acc] r Nil by simp
  next
    case (Cons kept r')
    let ?acc = "acc\<lparr>all_boxes := all_boxes acc @ [map (\<lambda>d. normalize_box img_w img_h (xyxy d)) kept],
                      all_scores := all_scores acc @ [map conf kept],
                      all_labels := all_labels acc @ [map cls kept]\<rparr>"
    show ?thesis using Cons.IH[OF rest, of ?acc] r Cons by simp
  qed
qed

lemma mean_nonneg: "\<forall>c\<in>set cs. 0 \<le> c \<Longrightarrow> 0 \<le> mean cs"
  by (simp add: mean_def sum_list_nonneg)

lemma mean_append_ge:
  assumes "mean cs \<le> c" and "0 \<le> c"
  shows "mean cs \<le> mean (cs @ [c])"
proof (cases "cs = []")
  case True
  then show ?thesis using assms(2) by (simp add: mean_def)
next
  case False
  then have n: "0 < real (length cs)" by simp
  have "sum_list cs \<le> c * real (length cs)"
    using assms(1) n by (simp add: mean_def pos_divide_le_eq)
  then have "sum_list cs * (real (length cs) + 1) \<le> (sum_list cs + c) * real (length cs)"
    by (simp add: algebra_simps)
  then have "sum_list cs / real (length cs) \<le> (sum_list cs + c) / (real (length cs) + 1)"
    using n by (simp add: frac_le_eq divide_le_cancel pos_le_divide_eq pos_divide_le_eq)
  then show ?thesis by (simp add: mean_def add.commute)
qed

lemma mean_times_length: "mean cs * real (length cs) = sum_list cs"
  by (cases "cs = []") (simp_all add: mean_def)

lemma fused_mono:
  assumes "length cs \<le> length cs'" and "mean cs \<le> mean cs'" and "0 \<le> mean cs'"
  shows "fused_confidence cs V \<le> fused_confidence cs' V"
proof -
  let ?a = "real (min (length cs) V)" and ?a' = "real (min (length cs') V)"
  have a: "0 \<le> ?a" "?a \<le> ?a'" using assms(1) by simp_all
  have "mean cs * ?a \<le> mean cs' * ?a" using assms(2) a(1) by (rule mult_right_mono)
  also have "\<dots> \<le> mean cs' * ?a'" using a(2) assms(3) by (rule mult_left_mono)
  finally have "mean cs * ?a / real V \<le> mean cs' * ?a' / real V"
    by (rule divide_right_mono) simp
  then show ?thesis by (simp only: fused_confidence_def)
qed

lemma fused_add_member:
  assumes "mean cs \<le> c" and "0 \<le> c"
  shows "fused_confidence cs V \<le> fused_confidence (cs @ [c]) V"
proof (cases "length cs < V")
  case True
  then have m: "min (length cs) V = length cs" "min (length (cs @ [c])) V = length (cs @ [c])"
    by simp_all
  have "mean cs * real (length cs) \<le> mean (cs @ [c]) * real (length (cs @ [c]))"
    unfolding mean_times_length using assms(2) by simp
  then have "mean cs * real (length cs) / real V \<le>
             mean (cs @ [c]) * real (length (cs @ [c])) / real V"
    by (rule divide_right_mono) simp
  then show ?thesis unfolding fused_confidence_def m .
next
  case False
  then have m: "min (length cs) V = V" "min (length (cs @ [c])) V = V" by simp_all
  have "mean cs * real V \<le> mean (cs @ [c]) * real V"
    using mean_append_ge[OF assms] by (rule mult_right_mono) simp
  then have "mean cs * real V / real V \<le> mean (cs @ [c]) * real V / real V"
    by (rule divide_right_mono) simp
  then show ?thesis unfolding fused_confidence_def m .
qed

section \<open>Claims\<close>

text \<open>
  C1. End-to-end scenario: two experts with gate weights 0.8 and 0.2; expert 0 returns
  the box (10,10,50,50) with confidence 0.9 and label 0, expert 1 the box (12,12,48,48)
  with confidence 0.95 and label 0. With \<open>conf_threshold = 0.3\<close> and
  \<open>iou_threshold = 0.1\<close> the scaled confidences are 0.72 and 0.19, expert 1's detection
  is dropped by the threshold, and \<open>run_moe\<close> returns exactly one detection: the box
  (10,10,50,50) with confidence 0.72 and label 0.
\<close>

theorem scenario_two_experts:
  "conf (scale_conf 0.8 scenario_expert0) = 0.72 \<and>
   conf (scale_conf 0.2 scenario_expert1) = 0.19 \<and>
   expert_keep 0.8 0.3 (Some [scenario_expert0]) = [scale_conf 0.8 scenario_expert0] \<and>
   expert_keep 0.2 0.3 (Some [scenario_expert1]) = [] \<and>
   run_moe [0.8, 0.2] [Some [scenario_expert0], Some [scenario_expert1]] 0.3 0.1 =
     Inr [[\<lparr>xyxy = \<lparr>x1 = 10, y1 = 10, x2 = 50, y2 = 50\<rparr>, conf = 0.72, cls = 0\<rparr>]]"
  by (simp add: run_moe_def nms_select_def nms_def scale_conf_def
        scenario_expert0_def scenario_expert1_def)

theorem scenario_two_experts_witness:
  "map (map conf)
     (projr (run_moe [0.8, 0.2] [Some [scenario_expert0], Some [scenario_expert1]] 0.3 0.1)) =
   [[0.72]]"
  using scenario_two_experts by simp

text \<open>
  C2, as stated: a detection of expert \<open>i\<close> survives exactly when its confidence times
  \<open>gate_weights[i]\<close> is greater than \<open>conf_threshold\<close>, and in particular no detection of
  an expert of weight 0 survives. The second part fails for a negative threshold: the
  scaled confidence 0 is greater than \<open>-1\<close>.
\<close>

theorem zero_weight_survives_negative_threshold:
  "expert_keep 0 (- 1) (Some [scenario_expert0]) = [scenario_expert0\<lparr>conf := 0\<rparr>] \<and>
   run_moe [0] [Some [scenario_expert0]] (- 1) 0.5 = Inr [[scenario_expert0\<lparr>conf := 0\<rparr>]]"
  by (simp add: run_moe_def nms_select_def nms_def scale_conf_def scenario_expert0_def)

text \<open>
  C2, amended: the pool that the loop of \<open>run_moe\<close> collects is, expert by expert, the
  detections whose confidence times \<open>gate_weights[i]\<close> is strictly greater than
  \<open>conf_threshold\<close>, with the scaled confidence; and when \<open>conf_threshold\<close> is not
  negative, an expert of gate weight 0 contributes nothing, whatever its raw confidences.
\<close>

theorem threshold_after_scaling:
  assumes "length experts \<le> length gw"
  shows "(\<exists>raw. collect gw ct 0 experts [] = Inr raw \<and>
           concat raw =
             concat (map (\<lambda>i. case experts ! i of
                                 None \<Rightarrow> []
                               | Some ds \<Rightarrow> map (scale_conf (gw ! i))
                                             (filter (\<lambda>d. conf d * gw ! i > ct) ds))
                       [0..<length experts])) \<and>
         (0 \<le> ct \<longrightarrow>
           (\<forall>i<length experts. gw ! i = 0 \<longrightarrow>
              (case experts ! i of
                 None \<Rightarrow> []
               | Some ds \<Rightarrow> map (scale_conf (gw ! i))
                             (filter (\<lambda>d. conf d * gw ! i > ct) ds)) = []))"
proof -
  have keep: "expert_keep w ct r =
      (case r of None \<Rightarrow> [] | Some ds \<Rightarrow> map (scale_conf w) (filter (\<lambda>d. conf d * w > ct) ds))"
    for w r
    by (cases r) (simp_all add: filter_map comp_def scale_conf_def)
  have "collect gw ct 0 experts [] =
          Inr (filter (\<lambda>k. k \<noteq> [])
                 (map (\<lambda>j. expert_keep (gw ! j) ct (experts ! j)) [0..<length experts]))"
    using collect_eq[where i = 0 and experts = experts and gw = gw and ct = ct and acc = "[]"]
      assms by simp
  then have first: "\<exists>raw. collect gw ct 0 experts [] = Inr raw \<and>
           concat raw =
             concat (map (\<lambda>i. case experts ! i of
                                 None \<Rightarrow> []
                               | Some ds \<Rightarrow> map (scale_conf (gw ! i))
                                             (filter (\<lambda>d. conf d * gw ! i > ct) ds))
                       [0..<length experts])"
    by (simp add: concat_filter_nonempty keep)
  have second: "(case experts ! i of
                 None \<Rightarrow> []
               | Some ds \<Rightarrow> map (scale_conf (gw ! i))
                             (filter (\<lambda>d. conf d * gw ! i > ct) ds)) = []"
    if "0 \<le> ct" "gw ! i = 0" for i
    using that by (cases "experts ! i") simp_all
  show ?thesis using first second by blast
qed

theorem threshold_after_scaling_witness:
  "length [Some [scenario_expert0], Some [scenario_expert1]] \<le> length [0.8, 0 :: real] \<and>
   collect [0.8, 0] 0.3 0 [Some [scenario_expert0], Some [scenario_expert1]] [] =
     Inr [[scale_conf 0.8 scenario_expert0]]"
proof -
  have len: "length [Some [scenario_expert0], Some [scenario_expert1]] \<le> length [0.8, 0 :: real]"
    by simp
  have "conf scenario_expert0 * 0.8 > 0.3"
    by (simp add: scenario_expert0_def)
  then show ?thesis
    using threshold_after_scaling[OF len, of "0.3"] len
    by (simp add: scale_conf_def)
qed

text \<open>
  C3, as stated: an empty expert pool, or a gate-weight vector whose length differs from
  the number of experts, makes the call fail with a configuration error. The code has no
  such check: with no experts \<open>run_moe\<close> returns \<open>[]\<close>, and with more weights than
  experts it runs as usual.
\<close>

theorem no_configuration_error:
  "run_moe [] [] 0.3 0.5 = Inr [] \<and>
   run_moe [1, 0, 0] [Some [scenario_expert0]] 0.3 0.5 = Inr [[scenario_expert0]]"
  by (simp add: run_moe_def nms_select_def nms_def scale_conf_def scenario_expert0_def)

text \<open>
  C3, amended: with no experts \<open>run_moe\<close> returns the empty result and no error. With
  fewer gate weights than experts the call fails with the index error of
  \<open>gate_weights[i]\<close> and returns no result. With at least as many gate weights as
  experts the call returns a result, the same as with the surplus weights cut off.
\<close>

theorem gate_length_handling:
  "run_moe gw [] ct it = Inr [] \<and>
   (length gw < length experts \<longrightarrow> run_moe gw experts ct it = Inl IndexError) \<and>
   (length experts \<le> length gw \<longrightarrow>
      run_moe gw experts ct it = run_moe (take (length experts) gw) experts ct it \<and>
      (\<exists>r. run_moe gw experts ct it = Inr r))"
proof -
  have a: "run_moe gw [] ct it = Inr []" by (simp add: run_moe_def)
  have c: "run_moe gw experts ct it = run_moe (take (length experts) gw) experts ct it \<and>
           (\<exists>r. run_moe gw experts ct it = Inr r)" if le: "length experts \<le> length gw"
  proof -
    have "map (\<lambda>i. expert_keep (take (length experts) gw ! i) ct (experts ! i))
            [0..<length experts] =
          map (\<lambda>i. expert_keep (gw ! i) ct (experts ! i)) [0..<length experts]"
      by (rule map_cong) simp_all
    then have "survivors (take (length experts) gw) ct experts = survivors gw ct experts"
      unfolding survivors_def by (rule arg_cong)
    moreover have "length experts \<le> length (take (length experts) gw)" using le by simp
    ultimately show ?thesis using le by (simp add: run_moe_eq)
  qed
  show ?thesis using a c run_moe_short by blast
qed

theorem gate_length_handling_witness:
  "run_moe [1] [] 0.3 0.5 = Inr [] \<and>
   length [1 :: real] < length [Some [scenario_expert0], Some [scenario_expert1]] \<and>
   run_moe [1] [Some [scenario_expert0], Some [scenario_expert1]] 0.3 0.5 = Inl IndexError \<and>
   length [Some [scenario_expert0]] \<le> length [1, 0 :: real] \<and>
   run_moe [1, 0] [Some [scenario_expert0]] 0.3 0.5 = run_moe [1] [Some [scenario_expert0]] 0.3 0.5"
  using gate_length_handling[of "[1]" "0.3" "0.5" "[Some [scenario_expert0], Some [scenario_expert1]]"]
    gate_length_handling[of "[1, 0]" "0.3" "0.5" "[Some [scenario_expert0]]"]
  by simp

text \<open>
  C4. Empty input gives an empty result, not an error: when every expert returns no
  detection (and the gate-weight vector covers the experts), \<open>run_moe\<close> returns \<open>[]\<close>;
  and when \<open>run_moe\<close> returns \<open>[]\<close> on every view, \<open>run_moe_with_tta\<close> returns \<open>[]\<close>,
  whatever the fusion function.
\<close>

theorem empty_in_empty_out:
  "(length experts \<le> length gw \<and> (\<forall>r\<in>set experts. r = None \<or> r = Some []) \<longrightarrow>
      run_moe gw experts ct it = Inr []) \<and>
   ((\<forall>v. run_moe (fst (model v)) (snd (model v)) ct it = Inr []) \<longrightarrow>
      run_moe_with_tta wbf img_w img_h model ct it = Inr [])"
proof -
  have a: "run_moe gw experts ct it = Inr []"
    if "length experts \<le> length gw" "\<forall>r\<in>set experts. r = None \<or> r = Some []"
    using that by (simp add: run_moe_eq survivors_empty)
  have b: "run_moe_with_tta wbf img_w img_h model ct it = Inr []"
    if "\<forall>v. run_moe (fst (model v)) (snd (model v)) ct it = Inr []"
  proof -
    have "tta_collect img_w img_h model ct it augmentations no_lists = Inr no_lists"
      using that by (intro tta_collect_all_empty) simp
    then show ?thesis by (simp add: run_moe_with_tta_def no_lists_def)
  qed
  show ?thesis using a b by blast
qed

theorem empty_in_empty_out_witness:
  "run_moe [1] [Some []] 0.3 0.1 = Inr [] \<and>
   run_moe_with_tta (\<lambda>bs ss ls t c. ([], [], [])) 100 100 blank_model 0.3 0.1 = Inr []"
proof -
  have h: "length [Some []] \<le> length [1 :: real] \<and>
           (\<forall>r\<in>set [Some ([] :: detection list)]. r = None \<or> r = Some [])"
    by simp
  have e: "run_moe [1] [Some []] 0.3 0.1 = Inr []"
    using empty_in_empty_out[of "[Some []]" "[1]" "0.3" "0.1"] h by blast
  have "\<forall>v. run_moe (fst (blank_model v)) (snd (blank_model v)) 0.3 0.1 = Inr []"
    using e by (simp add: blank_model_def)
  then have "run_moe_with_tta (\<lambda>bs ss ls t c. ([], [], [])) 100 100 blank_model 0.3 0.1 = Inr []"
    using empty_in_empty_out[of _ _ "0.3" "0.1" blank_model] by blast
  then show ?thesis using e by simp
qed

text \<open>
  C5. NMS is idempotent: for every pool and every IoU threshold, applying the
  suppression step of \<open>run_moe\<close> to its own output, with the same threshold, returns
  that output unchanged.
\<close>

theorem nms_idempotent: "nms_select t (nms_select t ds) = nms_select t ds"
proof -
  let ?k = "\<lambda>d. - conf d"
  have "sorted (map ?k (greedy_rows t (sort_key ?k ds)))"
    by (rule greedy_rows_sorted) simp
  then have "sort_key ?k (greedy_rows t (sort_key ?k ds)) = greedy_rows t (sort_key ?k ds)"
    by (rule sort_key_id_if_sorted)
  then show ?thesis by (simp only: nms_select_eq greedy_rows_idem)
qed

theorem nms_idempotent_witness:
  "nms_select 0.1 pool4 = [pool4 ! 0, pool4 ! 2, pool4 ! 3] \<and>
   nms_select 0.1 [pool4 ! 0, pool4 ! 2, pool4 ! 3] = [pool4 ! 0, pool4 ! 2, pool4 ! 3]"
proof -
  have v: "nms_select 0.1 pool4 = [pool4 ! 0, pool4 ! 2, pool4 ! 3]"
    by (simp add: nms_select_eq pool4_def iou_def area_def intersection_def)
  show ?thesis using nms_idempotent[of "0.1" pool4] unfolding v by simp
qed

text \<open>
  C6, as stated: increasing the IoU threshold never decreases the number of detections
  NMS keeps. It fails on the pool \<open>pool4\<close>: at threshold 0.1 the wide box is suppressed
  by the top-scoring one and three rows are kept; at threshold 0.3 the wide box is kept
  and suppresses the two boxes at its ends, so two rows are kept.
\<close>

theorem nms_count_not_monotone:
  "(0.1 :: real) \<le> 0.3 \<and>
   nms_select 0.1 pool4 = [pool4 ! 0, pool4 ! 2, pool4 ! 3] \<and>
   nms_select 0.3 pool4 = [pool4 ! 0, pool4 ! 1] \<and>
   \<not> length (nms_select 0.1 pool4) \<le> length (nms_select 0.3 pool4)"
  by (simp add: nms_select_eq pool4_def iou_def area_def intersection_def)

text \<open>
  C6, amended: for a pool of at most three detections, increasing the IoU threshold
  never decreases the number of detections NMS keeps.
\<close>

theorem nms_count_monotone_upto3:
  "t1 \<le> t2 \<Longrightarrow> length ds \<le> 3 \<Longrightarrow>
   length (nms_select t1 ds) \<le> length (nms_select t2 ds)"
  by (simp add: nms_select_eq greedy_rows_mono3)

theorem nms_count_monotone_upto3_witness:
  "(0.1 :: real) \<le> 0.3 \<and> length (take 3 pool4) \<le> 3 \<and>
   length (nms_select 0.1 (take 3 pool4)) \<le> length (nms_select 0.3 (take 3 pool4)) \<and>
   length (nms_select 0.1 (take 3 pool4)) = 2"
proof -
  have a: "(0.1 :: real) \<le> 0.3" and b: "length (take 3 pool4) \<le> 3" by simp_all
  have c: "length (nms_select 0.1 (take 3 pool4)) = 2"
    by (simp add: nms_select_eq pool4_def iou_def area_def intersection_def)
  show ?thesis using nms_count_monotone_upto3[OF a b] a b c by simp
qed

text \<open>
  C7. NMS in \<open>run_moe\<close> is class-agnostic: the class column plays no part in the
  suppression, so mapping the class ids of the experts' detections by any \<open>g\<close> maps the
  class ids of the result and changes nothing else; and no two kept detections overlap
  by more than the threshold, whatever their classes.
\<close>

theorem nms_class_agnostic:
  "run_moe gw (map (map_option (map (relabel g))) experts) ct it =
     map_sum id (map (map (relabel g))) (run_moe gw experts ct it) \<and>
   (\<forall>r kept. run_moe gw experts ct it = Inr r \<and> kept \<in> set r \<longrightarrow>
      sorted_wrt (\<lambda>a b. iou (xyxy a) (xyxy b) \<le> it) kept)"
  using run_moe_relabel run_moe_kept_pairwise by blast

theorem nms_class_agnostic_witness:
  "run_moe [1] [Some mixed_pool] 0.3 0.5 = Inr [[mixed_pool ! 0]] \<and>
   run_moe [1] (map (map_option (map (relabel (\<lambda>c. 7)))) [Some mixed_pool]) 0.3 0.5 =
     Inr [[relabel (\<lambda>c. 7) (mixed_pool ! 0)]] \<and>
   run_moe [1] [Some pool4] 0.3 0.1 = Inr [[pool4 ! 0, pool4 ! 2, pool4 ! 3]] \<and>
   sorted_wrt (\<lambda>a b. iou (xyxy a) (xyxy b) \<le> 0.1) [pool4 ! 0, pool4 ! 2, pool4 ! 3]"
proof -
  have v: "run_moe [1] [Some mixed_pool] 0.3 0.5 = Inr [[mixed_pool ! 0]]"
    by (simp add: run_moe_def nms_select_eq mixed_pool_def scale_conf_def
          iou_def area_def intersection_def)
  have p: "run_moe [1] [Some pool4] 0.3 0.1 = Inr [[pool4 ! 0, pool4 ! 2, pool4 ! 3]]"
    by (simp add: run_moe_def nms_select_eq pool4_def scale_conf_def
          iou_def area_def intersection_def)
  have relabelled:
    "run_moe [1] (map (map_option (map (relabel (\<lambda>c. 7)))) [Some mixed_pool]) 0.3 0.5 =
       Inr [[relabel (\<lambda>c. 7) (mixed_pool ! 0)]]"
    using nms_class_agnostic[of "[1]" "\<lambda>c. 7" "[Some mixed_pool]" "0.3" "0.5"]
    unfolding v by simp
  have "sorted_wrt (\<lambda>a b. iou (xyxy a) (xyxy b) \<le> 0.1) [pool4 ! 0, pool4 ! 2, pool4 ! 3]"
    using nms_class_agnostic[of "[1]" id "[Some pool4]" "0.3" "0.1"] p
    by (metis list.set_intros(1))
  then show ?thesis using v p relabelled by blast
qed

text \<open>
  C8, as stated: every normalized coordinate handed to Weighted Box Fusion lies in
  \<open>[0,1]\<close>, also when a view's image has another size than the original. The code
  divides by the size of the original image whatever the view: a view whose detection
  reaches \<open>x = 200\<close>, normalized with the original width 100, gives the coordinate 2.
\<close>

theorem normalized_outside_unit_square:
  "tta_collect 100 100 wide_model 0.3 0.1 augmentations no_lists =
     Inr \<lparr>all_boxes = [[\<lparr>x1 = 0, y1 = 0, x2 = 2, y2 = 1\<rparr>], [\<lparr>x1 = 0, y1 = 0, x2 = 2, y2 = 1\<rparr>],
                       [\<lparr>x1 = 0, y1 = 0, x2 = 2, y2 = 1\<rparr>], [\<lparr>x1 = 0, y1 = 0, x2 = 2, y2 = 1\<rparr>]],
          all_scores = [[0.9], [0.9], [0.9], [0.9]],
          all_labels = [[0], [0], [0], [0]]\<rparr> \<and>
   \<not> in_unit_square \<lparr>x1 = 0, y1 = 0, x2 = 2, y2 = 1\<rparr>"
  by (simp add: augmentations_def no_lists_def wide_model_def run_moe_def nms_select_def
        nms_def scale_conf_def normalize_box_def in_unit_square_def)

text \<open>
  C8, amended: in \<open>run_moe_with_tta\<close> the loop over the views returns (when every view's
  gate-weight vector covers its experts), and what it hands to Weighted Box Fusion is,
  view by view in the order of the views and skipping the views without detections,
  every detection of the view's \<open>run_moe\<close> result with its x-coordinates divided by the
  width and its y-coordinates by the height of the original image, whatever the view,
  together with its confidence and class; when the experts' boxes of every view lie
  inside an image of that size, which has positive width and height, every normalized
  coordinate lies in \<open>[0,1]\<close>.
\<close>

theorem normalized_in_unit_square:
  assumes "\<forall>v. length (snd (model v)) \<le> length (fst (model v))"
  shows "\<exists>acc. tta_collect img_w img_h model ct it augmentations no_lists = Inr acc \<and>
           all_boxes acc =
             map (map (\<lambda>d. \<lparr>x1 = x1 (xyxy d) / real img_w, y1 = y1 (xyxy d) / real img_h,
                              x2 = x2 (xyxy d) / real img_w, y2 = y2 (xyxy d) / real img_h\<rparr>))
               (concat (map (\<lambda>v. case run_moe (fst (model v)) (snd (model v)) ct it of
                                    Inl e \<Rightarrow> [] | Inr r \<Rightarrow> take 1 r)
                          [Original, HFlip, Bright, Contrast])) \<and>
           all_scores acc =
             map (map conf)
               (concat (map (\<lambda>v. case run_moe (fst (model v)) (snd (model v)) ct it of
                                    Inl e \<Rightarrow> [] | Inr r \<Rightarrow> take 1 r)
                          [Original, HFlip, Bright, Contrast])) \<and>
           all_labels acc =
             map (map cls)
               (concat (map (\<lambda>v. case run_moe (fst (model v)) (snd (model v)) ct it of
                                    Inl e \<Rightarrow> [] | Inr r \<Rightarrow> take 1 r)
                          [Original, HFlip, Bright, Contrast])) \<and>
           (0 < img_w \<and> 0 < img_h \<and>
            (\<forall>v ds. Some ds \<in> set (snd (model v)) \<longrightarrow>
               (\<forall>d\<in>set ds. within_image img_w img_h (xyxy d))) \<longrightarrow>
            (\<forall>bs\<in>set (all_boxes acc). \<forall>b\<in>set bs. in_unit_square b))"
proof -
  have ret: "\<forall>v\<in>set augmentations. \<exists>r. run_moe (fst (model v)) (snd (model v)) ct it = Inr r"
    using assms by (simp add: run_moe_returns)
  from tta_collect_eq[OF ret, of img_w img_h no_lists]
  obtain acc where acc: "tta_collect img_w img_h model ct it augmentations no_lists = Inr acc"
    and boxes: "all_boxes acc = all_boxes no_lists @
             map (map (\<lambda>d. normalize_box img_w img_h (xyxy d)))
               (concat (map (\<lambda>v. case run_moe (fst (model v)) (snd (model v)) ct it of
                                    Inl e \<Rightarrow> [] | Inr r \<Rightarrow> take 1 r) augmentations))"
    and scores: "all_scores acc = all_scores no_lists @
             map (map conf)
               (concat (map (\<lambda>v. case run_moe (fst (model v)) (snd (model v)) ct it of
                                    Inl e \<Rightarrow> [] | Inr r \<Rightarrow> take 1 r) augmentations))"
    and labels: "all_labels acc = all_labels no_lists @
             map (map cls)
               (concat (map (\<lambda>v. case run_moe (fst (model v)) (snd (model v)) ct it of
                                    Inl e \<Rightarrow> [] | Inr r \<Rightarrow> take 1 r) augmentations))"
    by blast
  have unit: "\<forall>bs\<in>set (all_boxes acc). \<forall>b\<in>set bs. in_unit_square b"
    if w: "0 < img_w" and h: "0 < img_h"
      and inside: "\<forall>v ds. Some ds \<in> set (snd (model v)) \<longrightarrow>
                     (\<forall>d\<in>set ds. within_image img_w img_h (xyxy d))"
  proof -
    have "\<exists>acc'. tta_collect img_w img_h model ct it augmentations no_lists = Inr acc' \<and>
            (\<forall>bs\<in>set (all_boxes acc'). \<forall>b\<in>set bs. in_unit_square b)"
    proof (rule tta_collect_invariant[OF ret])
      fix v kept r d
      assume "run_moe (fst (model v)) (snd (model v)) ct it = Inr (kept # r)" and "d \<in> set kept"
      then obtain ds d0 where o: "Some ds \<in> set (snd (model v))" "d0 \<in> set ds" "xyxy d = xyxy d0"
        using run_moe_origin by blast
      then have "within_image img_w img_h (xyxy d0)" using inside by blast
      then have "in_unit_square (normalize_box img_w img_h (xyxy d0))"
        using w h by (intro normalize_in_unit_square)
      then show "in_unit_square (normalize_box img_w img_h (xyxy d))" using o by simp
    next
      show "\<forall>bs\<in>set (all_boxes no_lists). \<forall>b\<in>set bs. in_unit_square b"
        by (simp add: no_lists_def)
    qed
    then show ?thesis unfolding acc by simp
  qed
  have b: "all_boxes acc =
             map (map (\<lambda>d. \<lparr>x1 = x1 (xyxy d) / real img_w, y1 = y1 (xyxy d) / real img_h,
                              x2 = x2 (xyxy d) / real img_w, y2 = y2 (xyxy d) / real img_h\<rparr>))
               (concat (map (\<lambda>v. case run_moe (fst (model v)) (snd (model v)) ct it of
                                    Inl e \<Rightarrow> [] | Inr r \<Rightarrow> take 1 r)
                          [Original, HFlip, Bright, Contrast]))"
    unfolding boxes by (simp add: no_lists_def augmentations_def normalize_box_def)
  have s: "all_scores acc =
             map (map conf)
               (concat (map (\<lambda>v. case run_moe (fst (model v)) (snd (model v)) ct it of
                                    Inl e \<Rightarrow> [] | Inr r \<Rightarrow> take 1 r)
                          [Original, HFlip, Bright, Contrast]))"
    unfolding scores by (simp add: no_lists_def augmentations_def)
  have l: "all_labels acc =
             map (map cls)
               (concat (map (\<lambda>v. case run_moe (fst (model v)) (snd (model v)) ct it of
                                    Inl e \<Rightarrow> [] | Inr r \<Rightarrow> take 1 r)
                          [Original, HFlip, Bright, Contrast]))"
    unfolding labels by (simp add: no_lists_def augmentations_def)
  show ?thesis using acc b s l unit by blast
qed

theorem normalized_in_unit_square_witness:
  "tta_collect 100 200 varied_model 0.3 0.1 augmentations no_lists =
     Inr \<lparr>all_boxes = [[\<lparr>x1 = 0.1, y1 = 0.1, x2 = 0.5, y2 = 0.5\<rparr>,
                        \<lparr>x1 = 0.6, y1 = 0.6, x2 = 1, y2 = 1\<rparr>],
                       [\<lparr>x1 = 0.5, y1 = 0.1, x2 = 0.9, y2 = 0.5\<rparr>],
                       [\<lparr>x1 = 0, y1 = 0, x2 = 1, y2 = 1\<rparr>]],
          all_scores = [[0.9, 0.8], [0.7], [0.6]],
          all_labels = [[0, 1], [0], [0]]\<rparr> \<and>
   list_all (list_all in_unit_square)
     (all_boxes (projr (tta_collect 100 200 varied_model 0.3 0.1 augmentations no_lists)))"
proof -
  have w: "(0 :: nat) < 100" and h: "(0 :: nat) < 200" by simp_all
  have l: "\<forall>v. length (snd (varied_model v)) \<le> length (fst (varied_model v))"
    by (simp add: varied_model_def split: view.split)
  have b: "\<forall>v ds. Some ds \<in> set (snd (varied_model v)) \<longrightarrow>
             (\<forall>d\<in>set ds. within_image 100 200 (xyxy d))"
    by (simp add: varied_model_def within_image_def split: view.split)
  have r: "run_moe (fst (varied_model Original)) (snd (varied_model Original)) 0.3 0.1 =
             Inr [[\<lparr>xyxy = \<lparr>x1 = 10, y1 = 20, x2 = 50, y2 = 100\<rparr>, conf = 0.9, cls = 0\<rparr>,
                   \<lparr>xyxy = \<lparr>x1 = 60, y1 = 120, x2 = 100, y2 = 200\<rparr>, conf = 0.8, cls = 1\<rparr>]]"
    "run_moe (fst (varied_model HFlip)) (snd (varied_model HFlip)) 0.3 0.1 =
             Inr [[\<lparr>xyxy = \<lparr>x1 = 50, y1 = 20, x2 = 90, y2 = 100\<rparr>, conf = 0.7, cls = 0\<rparr>]]"
    "run_moe (fst (varied_model Bright)) (snd (varied_model Bright)) 0.3 0.1 = Inr []"
    "run_moe (fst (varied_model Contrast)) (snd (varied_model Contrast)) 0.3 0.1 =
             Inr [[\<lparr>xyxy = \<lparr>x1 = 0, y1 = 0, x2 = 100, y2 = 200\<rparr>, conf = 0.6, cls = 0\<rparr>]]"
    by (simp_all add: varied_model_def run_moe_def nms_select_eq scale_conf_def
          iou_def area_def intersection_def)
  let ?blocks = "concat (map (\<lambda>v. case run_moe (fst (varied_model v)) (snd (varied_model v)) 0.3 0.1 of
                                      Inl e \<Rightarrow> [] | Inr r \<Rightarrow> take 1 r)
                            [Original, HFlip, Bright, Contrast])"
  have blocks: "?blocks =
      [[\<lparr>xyxy = \<lparr>x1 = 10, y1 = 20, x2 = 50, y2 = 100\<rparr>, conf = 0.9, cls = 0\<rparr>,
        \<lparr>xyxy = \<lparr>x1 = 60, y1 = 120, x2 = 100, y2 = 200\<rparr>, conf = 0.8, cls = 1\<rparr>],
       [\<lparr>xyxy = \<lparr>x1 = 50, y1 = 20, x2 = 90, y2 = 100\<rparr>, conf = 0.7, cls = 0\<rparr>],
       [\<lparr>xyxy = \<lparr>x1 = 0, y1 = 0, x2 = 100, y2 = 200\<rparr>, conf = 0.6, cls = 0\<rparr>]]"
    by (simp add: r)
  obtain acc where acc: "tta_collect 100 200 varied_model 0.3 0.1 augmentations no_lists = Inr acc"
    and boxes0: "all_boxes acc =
             map (map (\<lambda>d. \<lparr>x1 = x1 (xyxy d) / real (100 :: nat), y1 = y1 (xyxy d) / real (200 :: nat),
                              x2 = x2 (xyxy d) / real (100 :: nat), y2 = y2 (xyxy d) / real (200 :: nat)\<rparr>))
               ?blocks"
    and scores0: "all_scores acc = map (map conf) ?blocks"
    and labels0: "all_labels acc = map (map cls) ?blocks"
    and cond: "(0 :: nat) < 100 \<and> (0 :: nat) < 200 \<and>
            (\<forall>v ds. Some ds \<in> set (snd (varied_model v)) \<longrightarrow>
               (\<forall>d\<in>set ds. within_image 100 200 (xyxy d))) \<longrightarrow>
            (\<forall>bs\<in>set (all_boxes acc). \<forall>b\<in>set bs. in_unit_square b)"
    using normalized_in_unit_square[OF l, of 100 200 "0.3" "0.1"] by blast
  have unit: "\<forall>bs\<in>set (all_boxes acc). \<forall>b\<in>set bs. in_unit_square b"
    using cond w h b by blast
  have boxes: "all_boxes acc =
        [[\<lparr>x1 = 0.1, y1 = 0.1, x2 = 0.5, y2 = 0.5\<rparr>, \<lparr>x1 = 0.6, y1 = 0.6, x2 = 1, y2 = 1\<rparr>],
         [\<lparr>x1 = 0.5, y1 = 0.1, x2 = 0.9, y2 = 0.5\<rparr>],
         [\<lparr>x1 = 0, y1 = 0, x2 = 1, y2 = 1\<rparr>]]"
    unfolding boxes0 blocks by simp
  have scores: "all_scores acc = [[0.9, 0.8], [0.7], [0.6]]"
    unfolding scores0 blocks by simp
  have labels: "all_labels acc = [[0, 1], [0], [0]]"
    unfolding labels0 blocks by simp
  have rec: "acc = \<lparr>all_boxes = all_boxes acc, all_scores = all_scores acc, all_labels = all_labels acc\<rparr>"
    by simp
  have whole: "tta_collect 100 200 varied_model 0.3 0.1 augmentations no_lists =
     Inr \<lparr>all_boxes = [[\<lparr>x1 = 0.1, y1 = 0.1, x2 = 0.5, y2 = 0.5\<rparr>,
                        \<lparr>x1 = 0.6, y1 = 0.6, x2 = 1, y2 = 1\<rparr>],
                       [\<lparr>x1 = 0.5, y1 = 0.1, x2 = 0.9, y2 = 0.5\<rparr>],
                       [\<lparr>x1 = 0, y1 = 0, x2 = 1, y2 = 1\<rparr>]],
          all_scores = [[0.9, 0.8], [0.7], [0.6]],
          all_labels = [[0, 1], [0], [0]]\<rparr>"
    unfolding acc using rec unfolding boxes scores labels by simp
  have "list_all (list_all in_unit_square) (all_boxes acc)"
    using unit by (simp add: list_all_iff)
  then show ?thesis using whole unfolding acc by simp
qed

text \<open>
  C9. The confidence of a fused cluster, for confidences that are not negative, does not
  decrease when the cluster size and the mean member confidence do not decrease; in
  particular, adding a detection whose confidence is at least the cluster's mean never
  decreases it.
\<close>

theorem fused_confidence_monotone:
  "((\<forall>x\<in>set cs'. 0 \<le> x) \<and> length cs \<le> length cs' \<and> mean cs \<le> mean cs' \<longrightarrow>
      fused_confidence cs V \<le> fused_confidence cs' V) \<and>
   (0 \<le> c \<and> mean cs \<le> c \<longrightarrow> fused_confidence cs V \<le> fused_confidence (cs @ [c]) V)"
  using fused_mono[of cs cs' V] mean_nonneg[of cs'] fused_add_member[of cs c V] by blast

theorem fused_confidence_monotone_witness:
  "fused_confidence [0.6] 4 = 0.15 \<and> fused_confidence [0.6, 0.8] 4 = 0.35 \<and>
   mean [0.6] \<le> 0.8 \<and> fused_confidence [0.6] 4 \<le> fused_confidence ([0.6] @ [0.8]) 4"
proof -
  have m: "(0 :: real) \<le> 0.8 \<and> mean [0.6] \<le> 0.8" by (simp add: mean_def)
  have "fused_confidence [0.6] 4 \<le> fused_confidence ([0.6] @ [0.8]) 4"
    using fused_confidence_monotone[of "[0.6, 0.8]" "[0.6]" 4 "0.8"] m by blast
  then show ?thesis using m by (simp add: fused_confidence_def mean_def)
qed

text \<open>
  C10. When at least one detection survives scaling and thresholding, \<open>run_moe\<close> returns
  one non-empty block whose first row is a surviving detection of the highest scaled
  confidence; and the result is \<open>[]\<close> exactly when no detection survives.
\<close>

theorem run_moe_keeps_top:
  assumes "length experts \<le> length gw"
  shows "(run_moe gw experts ct it = Inr [] \<longleftrightarrow> survivors gw ct experts = []) \<and>
         (survivors gw ct experts \<noteq> [] \<longrightarrow>
            (\<exists>kept. run_moe gw experts ct it = Inr [kept] \<and> kept \<noteq> [] \<and>
               hd kept \<in> set (survivors gw ct experts) \<and>
               (\<forall>d\<in>set (survivors gw ct experts). conf d \<le> conf (hd kept))))"
  using nms_select_hd[of "survivors gw ct experts" it]
  by (simp add: run_moe_eq[OF assms])

theorem run_moe_keeps_top_witness:
  "length [Some pool4] \<le> length [1 :: real] \<and>
   survivors [1] 0.3 [Some pool4] = pool4 \<and>
   run_moe [1] [Some pool4] 0.3 0.1 = Inr [[pool4 ! 0, pool4 ! 2, pool4 ! 3]] \<and>
   conf (pool4 ! 0) = 0.9"
proof -
  have len: "length [Some pool4] \<le> length [1 :: real]" by simp
  have s: "survivors [1] 0.3 [Some pool4] = pool4"
    by (simp add: survivors_def scale_conf_def pool4_def)
  have v: "nms_select 0.1 pool4 = [pool4 ! 0, pool4 ! 2, pool4 ! 3]"
    by (simp add: nms_select_eq pool4_def iou_def area_def intersection_def)
  have ne: "pool4 \<noteq> []" by (simp add: pool4_def)
  have "\<exists>kept. run_moe [1] [Some pool4] 0.3 0.1 = Inr [kept]"
    using run_moe_keeps_top[OF len, of "0.3" "0.1"] ne unfolding s by blast
  moreover have "run_moe [1] [Some pool4] 0.3 0.1 = Inr [nms_select 0.1 pool4]"
    using ne by (simp add: run_moe_eq[OF len] s)
  ultimately show ?thesis using len s v by (simp add: pool4_def)
qed

end
